theory Spec2Isabelle
  imports Complex_Main "HOL-Library.Sublist" "HOL-Library.List_Lexorder" "HOL-Library.AList"
    "HOL-Library.Code_Target_Numeral"
begin

section \<open>Strings, digits and integer conversion\<close>

text \<open>
  A Python \<^verbatim>\<open>str\<close> is a sequence of Unicode code points; it is modelled as a list of
  natural numbers. \<open>ascii\<close> turns an ASCII literal of the source into such a list. The three
  CJK characters of the patterns are written as code points:
  U+7C89 = 31881, U+4E1D = 19997, U+6570 = 25968.
\<close>

type_synonym str = "nat list"

definition ascii :: "string \<Rightarrow> str" where
  "ascii s = map of_char s"

definition fensi :: str where
  "fensi = [31881, 19997]"

definition fensishu :: str where
  "fensishu = [31881, 19997, 25968]"

text \<open>
  \<^verbatim>\<open>\d\<close> in a \<^verbatim>\<open>str\<close> pattern and \<^verbatim>\<open>int()\<close> both follow the Unicode decimal-digit
  property (category Nd). The digits come in blocks of ten consecutive code points;
  \<open>nd_zeros\<close> lists the code point of the zero of every block beyond ASCII
  (Unicode 14.0, the table of CPython 3.11).
\<close>

definition nd_zeros :: "nat list" where
  "nd_zeros = [1632, 1776, 1984, 2406, 2534, 2662, 2790, 2918, 3046, 3174, 3302, 3430,
     3558, 3664, 3792, 3872, 4160, 4240, 6112, 6160, 6470, 6608, 6784, 6800, 6992, 7088,
     7232, 7248, 42528, 43216, 43264, 43472, 43504, 43600, 44016, 65296, 66720, 68912,
     69734, 69872, 69942, 70096, 70384, 70736, 70864, 71248, 71360, 71472, 71904, 72016,
     72784, 73040, 73120, 92768, 92864, 93008, 120782, 120792, 120802, 120812, 120822,
     123200, 123632, 125264, 130032]"

definition digit_value :: "nat \<Rightarrow> nat option" where
  "digit_value c =
     (if 48 \<le> c \<and> c \<le> 57 then Some (c - 48)
      else case find (\<lambda>z. z \<le> c \<and> c < z + 10) nd_zeros of
             None \<Rightarrow> None
           | Some z \<Rightarrow> Some (c - z))"

definition isdecimal :: "nat \<Rightarrow> bool" where
  "isdecimal c = (digit_value c \<noteq> None)"

definition dval :: "nat \<Rightarrow> int" where
  "dval c = (case digit_value c of None \<Rightarrow> 0 | Some v \<Rightarrow> int v)"

datatype error =
    ValueError
  | JSONDecodeError
  | ZeroDivisionError
  | OverflowError
  | CouldNotExtract str

text \<open>
  \<^verbatim>\<open>int(s)\<close>, for the arguments the program passes: runs of decimal digits. CPython refuses
  a digit string longer than \<^verbatim>\<open>sys.int_info.default_max_str_digits\<close> = 4300 with a
  ValueError. Signs, blanks and underscores, which \<^verbatim>\<open>int\<close> also accepts, never reach it
  here and are refused by the model.
\<close>

definition int_max_str_digits :: nat where
  "int_max_str_digits = 4300"

definition py_int :: "str \<Rightarrow> error + int" where
  "py_int s =
     (if s = [] \<or> \<not> list_all isdecimal s then Inl ValueError
      else if int_max_str_digits < length s then Inl ValueError
      else Inr (foldl (\<lambda>a c. 10 * a + dval c) 0 s))"

text \<open>\<^verbatim>\<open>str(n)\<close> for a non-negative integer, and zero padding as in \<^verbatim>\<open>%04d\<close>.\<close>

fun decimal :: "nat \<Rightarrow> str" where
  "decimal n = (if n < 10 then [48 + n] else decimal (n div 10) @ [48 + n mod 10])"

declare decimal.simps [simp del]

definition zfill :: "nat \<Rightarrow> nat \<Rightarrow> str" where
  "zfill w n = replicate (w - length (decimal n)) 48 @ decimal n"

section \<open>Regular expressions\<close>

text \<open>
  The patterns of the program use literals, the classes \<^verbatim>\<open>[^>]\<close>, \<^verbatim>\<open>.\<close> (with DOTALL)
  and \<^verbatim>\<open>\d\<close>, the greedy star, the lazy star \<^verbatim>\<open>*?\<close> and capture groups.
  \<^verbatim>\<open>x+\<close> is \<^verbatim>\<open>xx*\<close> and \<^verbatim>\<open>x{8}\<close> is eight copies of \<^verbatim>\<open>x\<close>. A pattern is a list of
  items; \<open>Mark\<close> stands for a parenthesis of a group.
\<close>

datatype cls = Lit nat | NotLit nat | AnyChar | Digit

fun cls_ok :: "cls \<Rightarrow> nat \<Rightarrow> bool" where
  "cls_ok (Lit a) x = (x = a)"
| "cls_ok (NotLit a) x = (x \<noteq> a)"
| "cls_ok AnyChar x = True"
| "cls_ok Digit x = isdecimal x"

datatype item = Sym cls | Star cls | Lazy cls | Mark

type_synonym regex = "item list"

definition lits :: "str \<Rightarrow> regex" where
  "lits w = map (\<lambda>c. Sym (Lit c)) w"

text \<open>
  \<open>re_match p s\<close> is the backtracking matcher of \<^verbatim>\<open>re\<close>, anchored at the start of \<open>s\<close>:
  a greedy star first takes one more character and gives it back when the rest fails, a
  lazy star first tries the rest. The result lists the input remaining at every
  \<open>Mark\<close> and at the end of the match.
\<close>

fun re_match :: "regex \<Rightarrow> str \<Rightarrow> str list option" where
  "re_match [] s = Some [s]"
| "re_match (Mark # p) s = map_option ((#) s) (re_match p s)"
| "re_match (Sym c # p) [] = None"
| "re_match (Sym c # p) (x # xs) = (if cls_ok c x then re_match p xs else None)"
| "re_match (Star c # p) [] = re_match p []"
| "re_match (Star c # p) (x # xs) =
     (if cls_ok c x
      then (case re_match (Star c # p) xs of
              Some r \<Rightarrow> Some r
            | None \<Rightarrow> re_match p (x # xs))
      else re_match p (x # xs))"
| "re_match (Lazy c # p) [] = re_match p []"
| "re_match (Lazy c # p) (x # xs) =
     (case re_match p (x # xs) of
        Some r \<Rightarrow> Some r
      | None \<Rightarrow> if cls_ok c x then re_match (Lazy c # p) xs else None)"

text \<open>\<^verbatim>\<open>re.search\<close>: the first start position, from the left, at which the pattern matches.\<close>

fun re_search :: "regex \<Rightarrow> str \<Rightarrow> str list option" where
  "re_search p [] = re_match p []"
| "re_search p (x # xs) =
     (case re_match p (x # xs) of
        Some r \<Rightarrow> Some r
      | None \<Rightarrow> re_search p xs)"

text \<open>\<^verbatim>\<open>match.group(n)\<close>: the text between the two marks of group \<open>n\<close>.\<close>

definition group :: "nat \<Rightarrow> str list \<Rightarrow> str" where
  "group n r =
     (case drop (2 * (n - 1)) r of
        a # b # _ \<Rightarrow> take (length a - length b) a
      | _ \<Rightarrow> [])"

section \<open>Pattern extractors\<close>

definition bilibili_pattern :: regex where
  \<open>bilibili_pattern =
     lits (ascii ''<span'') @ [Star (NotLit 62)] @
     lits (ascii ''class="nav-statistics__item-text">'') @ lits fensishu @
     lits (ascii ''</span><span'') @ [Star (NotLit 62)] @
     lits (ascii ''class="nav-statistics__item-num"'') @ [Star (NotLit 62)] @
     lits (ascii ''title="'') @ [Mark, Sym Digit, Star Digit, Mark] @
     lits (ascii ''">'') @ [Mark, Sym Digit, Star Digit, Mark] @
     lits (ascii ''</span>'')\<close>

definition douyin_pattern :: regex where
  \<open>douyin_pattern =
     lits (ascii ''<div'') @ [Star (NotLit 62)] @
     lits (ascii ''data-e2e="user-info-fans"'') @ [Star (NotLit 62), Sym (Lit 62)] @
     [Lazy AnyChar] @ lits (ascii ''<div'') @ [Star (NotLit 62), Sym (Lit 62)] @
     lits fensi @ lits (ascii ''</div>'') @
     [Lazy AnyChar] @ lits (ascii ''<div'') @ [Star (NotLit 62), Sym (Lit 62)] @
     [Mark, Sym Digit, Star Digit, Mark] @ lits (ascii ''</div>'')\<close>

definition xiaohongshu_pattern :: regex where
  \<open>xiaohongshu_pattern =
     lits (ascii ''<span class="count"'') @ [Star (NotLit 62), Sym (Lit 62)] @
     [Mark, Sym Digit, Star Digit, Mark] @
     lits (ascii ''</span><span class="shows"'') @ [Star (NotLit 62), Sym (Lit 62)] @
     lits fensi @ lits (ascii ''</span>'')\<close>

text \<open>
  The three extractors return \<open>Inr None\<close> for Python's \<^verbatim>\<open>None\<close>, \<open>Inr (Some n)\<close> for
  an integer and \<open>Inl e\<close> when \<^verbatim>\<open>int\<close> raises.
\<close>

definition extract_with :: "regex \<Rightarrow> str \<Rightarrow> error + int option" where
  "extract_with pattern html_content =
     (case re_search pattern html_content of
        Some r \<Rightarrow> (case py_int (group 1 r) of Inl e \<Rightarrow> Inl e | Inr n \<Rightarrow> Inr (Some n))
      | None \<Rightarrow> Inr None)"

definition extract_bilibili_followers :: "str \<Rightarrow> error + int option" where
  "extract_bilibili_followers html_content = extract_with bilibili_pattern html_content"

definition extract_douyin_followers :: "str \<Rightarrow> error + int option" where
  "extract_douyin_followers html_content = extract_with douyin_pattern html_content"

definition extract_xiaohongshu_followers :: "str \<Rightarrow> error + int option" where
  "extract_xiaohongshu_followers html_content = extract_with xiaohongshu_pattern html_content"

section \<open>Timestamp of a file name\<close>

record datetime =
  year :: nat
  month :: nat
  day :: nat
  hour :: nat
  minute :: nat
  second :: nat

definition is_leap :: "nat \<Rightarrow> bool" where
  "is_leap y = (y mod 4 = 0 \<and> (y mod 100 \<noteq> 0 \<or> y mod 400 = 0))"

definition days_in_month :: "nat \<Rightarrow> nat \<Rightarrow> nat" where
  "days_in_month y m =
     (if m = 2 then (if is_leap y then 29 else 28)
      else if m = 4 \<or> m = 6 \<or> m = 9 \<or> m = 11 then 30 else 31)"

text \<open>
  \<^verbatim>\<open>datetime.strptime(f"{date_str}_{time_str}", "%Y%m%d_%H%M%S")\<close> for a \<open>date_str\<close> of
  eight and a \<open>time_str\<close> of six decimal digits, which is what the groups of the file-name
  pattern hold. The format compiles to the regular expression
  \<^verbatim>\<open>(\d\d\d\d)(1[0-2]|0[1-9]|[1-9])(3[0-1]|[1-2]\d|0[1-9]|[1-9]| [1-9])_\<close>
  \<^verbatim>\<open>(2[0-3]|[0-1]\d|\d)([0-5]\d|\d)(6[0-1]|[0-5]\d|\d)\<close>, which has to consume the whole
  string; on fifteen characters that leaves two characters for every field but the year.
  The fields are converted with \<^verbatim>\<open>int\<close> and handed to the \<^verbatim>\<open>datetime\<close> constructor,
  which checks the ranges. Every failure is a ValueError.
\<close>

definition in_range :: "nat \<Rightarrow> nat \<Rightarrow> nat \<Rightarrow> bool" where
  "in_range lo hi c = (lo \<le> c \<and> c \<le> hi)"

fun month_field :: "str \<Rightarrow> bool" where
  "month_field [a, b] = (a = 49 \<and> in_range 48 50 b \<or> a = 48 \<and> in_range 49 57 b)"
| "month_field _ = False"

fun day_field :: "str \<Rightarrow> bool" where
  "day_field [a, b] =
     (a = 51 \<and> in_range 48 49 b \<or> in_range 49 50 a \<and> isdecimal b \<or> a = 48 \<and> in_range 49 57 b)"
| "day_field _ = False"

fun hour_field :: "str \<Rightarrow> bool" where
  "hour_field [a, b] = (a = 50 \<and> in_range 48 51 b \<or> in_range 48 49 a \<and> isdecimal b)"
| "hour_field _ = False"

fun minute_field :: "str \<Rightarrow> bool" where
  "minute_field [a, b] = (in_range 48 53 a \<and> isdecimal b)"
| "minute_field _ = False"

fun second_field :: "str \<Rightarrow> bool" where
  "second_field [a, b] = (a = 54 \<and> in_range 48 49 b \<or> in_range 48 53 a \<and> isdecimal b)"
| "second_field _ = False"

definition field_value :: "str \<Rightarrow> nat" where
  "field_value s = nat (foldl (\<lambda>a c. 10 * a + dval c) 0 s)"

definition strptime :: "str \<Rightarrow> str \<Rightarrow> error + datetime" where
  "strptime date_str time_str =
     (let y = take 4 date_str; m = take 2 (drop 4 date_str); d = drop 6 date_str;
          hh = take 2 time_str; mm = take 2 (drop 2 time_str); ss = drop 4 time_str
      in if \<not> (length date_str = 8 \<and> length time_str = 6 \<and> list_all isdecimal y
                \<and> month_field m \<and> day_field d
                \<and> hour_field hh \<and> minute_field mm \<and> second_field ss)
         then Inl ValueError
         else if field_value y < 1 \<or> days_in_month (field_value y) (field_value m) < field_value d
                 \<or> 59 < field_value ss
         then Inl ValueError
         else Inr \<lparr>year = field_value y, month = field_value m, day = field_value d,
                   hour = field_value hh, minute = field_value mm, second = field_value ss\<rparr>)"

definition isoformat :: "datetime \<Rightarrow> str" where
  "isoformat dt =
     zfill 4 (year dt) @ [45] @ zfill 2 (month dt) @ [45] @ zfill 2 (day dt) @ [84] @
     zfill 2 (hour dt) @ [58] @ zfill 2 (minute dt) @ [58] @ zfill 2 (second dt)"

definition timestamp_pattern :: regex where
  "timestamp_pattern =
     [Mark] @ replicate 8 (Sym Digit) @ [Mark, Sym (Lit 95), Mark] @
     replicate 6 (Sym Digit) @ [Mark]"

text \<open>
  \<open>now\<close> is what \<^verbatim>\<open>datetime.now().isoformat()\<close> returns at the time of the call; it is
  read in the fallback branch only.
\<close>

definition extract_timestamp_from_filename :: "str \<Rightarrow> str \<Rightarrow> error + str" where
  "extract_timestamp_from_filename now filename =
     (case re_search timestamp_pattern filename of
        Some r \<Rightarrow>
          (case strptime (group 1 r) (group 2 r) of
             Inl e \<Rightarrow> Inl e
           | Inr dt \<Rightarrow> Inr (isoformat dt))
      | None \<Rightarrow> Inr now)"

section \<open>History store\<close>

text \<open>
  The history is a \<^verbatim>\<open>dict\<close> from date to a \<^verbatim>\<open>dict\<close> from platform to count. A Python
  \<^verbatim>\<open>dict\<close> keeps its keys in insertion order, so it is modelled as an association list:
  \<open>map_of\<close> reads a key and \<open>AList.update\<close> overwrites the value of a present key in place and
  appends an absent one. The content of the output file is represented by what
  \<^verbatim>\<open>json.load\<close> makes of it: \<open>Malformed\<close> when it fails to parse, \<open>Stored h\<close> when
  it parses to the history \<open>h\<close>.
\<close>

type_synonym history = "(str \<times> (str \<times> int) list) list"

datatype contents = Malformed | Stored history

record html_file =
  fname :: str
  body :: str

text \<open>
  Every \<^verbatim>\<open>print\<close> of the program is one message. The lines of the summary carry the
  numbers as the text that the format specifications produce.
\<close>

datatype msg =
    CouldNotExtractMsg str
  | ErrorLoading error
  | Overwriting str str
  | Added str int str
  | DirNotFound
  | NoHtmlFiles
  | Rule
  | ProcessingCount nat
  | ProcessingFile str
  | Blank
  | Processed nat nat
  | DataSaved
  | NoData
  | SummaryTitle
  | TotalDates nat
  | DateRange str str
  | DataByDate
  | DateHeader str
  | PlatformLine str str
  | GrowthTitle
  | GrowthLine str str str str str

text \<open>
  The world the program acts on: the \<^verbatim>\<open>*.html\<close> files of the cache directory
  (\<open>None\<close> when the directory does not exist), the output file (\<open>None\<close> when it does not
  exist) and the standard output.
\<close>

record world =
  html_cache_dir :: "html_file list option"
  output_file :: "contents option"
  stdout :: "msg list"

text \<open>
  What the interpreter supplies: \<^verbatim>\<open>str.lower\<close> (the Unicode case mapping) and the clock,
  \<open>now_at name\<close> being the value of \<^verbatim>\<open>datetime.now().isoformat()\<close> while the file
  \<open>name\<close> is processed.
\<close>

record env =
  lower :: "str \<Rightarrow> str"
  now_at :: "str \<Rightarrow> str"

definition says :: "msg list \<Rightarrow> world \<Rightarrow> world" where
  "says ms w = w\<lparr>stdout := stdout w @ ms\<rparr>"

definition json_load :: "contents \<Rightarrow> error + history" where
  "json_load c = (case c of Malformed \<Rightarrow> Inl JSONDecodeError | Stored h \<Rightarrow> Inr h)"

definition load_existing_data :: "world \<Rightarrow> world \<times> (error + history)" where
  "load_existing_data w =
     (case output_file w of
        Some c \<Rightarrow>
          (case json_load c of
             Inr h \<Rightarrow> (w, Inr h)
           | Inl e \<Rightarrow> (says [ErrorLoading e] w, Inr []))
      | None \<Rightarrow> (w, Inr []))"

definition save_data :: "history \<Rightarrow> world \<Rightarrow> world" where
  "save_data data w = w\<lparr>output_file := Some (Stored data)\<rparr>"

record entry =
  platform :: str
  followers :: int
  timestamp :: str
  source_file :: str

text \<open>\<^verbatim>\<open>timestamp.split('T')[0]\<close>: the text before the first \<^verbatim>\<open>T\<close>.\<close>

definition date_of :: "str \<Rightarrow> str" where
  "date_of ts = takeWhile (\<lambda>c. c \<noteq> 84) ts"

definition append_data :: "entry \<Rightarrow> world \<Rightarrow> world \<times> (error + unit)" where
  "append_data new_entry w =
     (case load_existing_data w of
        (w1, Inl e) \<Rightarrow> (w1, Inl e)
      | (w1, Inr history) \<Rightarrow>
          (let date = date_of (timestamp new_entry);
               history1 = (if map_of history date = None then history @ [(date, [])] else history);
               platforms = (case map_of history1 date of None \<Rightarrow> [] | Some d \<Rightarrow> d);
               w2 = (if map_of platforms (platform new_entry) \<noteq> None
                     then says [Overwriting (platform new_entry) date] w1 else w1);
               history2 = AList.update date
                            (AList.update (platform new_entry) (followers new_entry) platforms)
                            history1;
               w3 = says [Added (platform new_entry) (followers new_entry) date] w2
           in (save_data history2 w3, Inr ())))"

section \<open>Batch driver\<close>

text \<open>\<^verbatim>\<open>sub in s\<close> for strings.\<close>

fun py_in :: "str \<Rightarrow> str \<Rightarrow> bool" where
  "py_in sub [] = (sub = [])"
| "py_in sub (x # xs) = (prefix sub (x # xs) \<or> py_in sub xs)"

text \<open>
  \<open>detect_platform\<close> is the \<^verbatim>\<open>if\<close>/\<^verbatim>\<open>elif\<close> chain of \<open>process_html_file\<close>: the platform
  token found in the lower-cased file name, if any, and what its extractor returns.
  The dictionary that \<open>process_html_file\<close> returns has four keys, so it is always true in
  \<^verbatim>\<open>if entry:\<close>; the model returns the entry itself. A platform name is a non-empty
  string, so \<^verbatim>\<open>if platform\<close> holds exactly when a token was found.
\<close>

definition detect_platform :: "str \<Rightarrow> str \<Rightarrow> str option \<times> (error + int option)" where
  "detect_platform filename html_content =
     (if py_in (ascii ''bilibili'') filename
      then (Some (ascii ''bilibili''), extract_bilibili_followers html_content)
      else if py_in (ascii ''douyin'') filename
      then (Some (ascii ''douyin''), extract_douyin_followers html_content)
      else if py_in (ascii ''xiaohongshu'') filename
      then (Some (ascii ''xiaohongshu''), extract_xiaohongshu_followers html_content)
      else (None, Inr None))"

definition process_html_file :: "env \<Rightarrow> html_file \<Rightarrow> world \<Rightarrow> world \<times> (error + entry)" where
  "process_html_file e html_file w =
     (let html_content = body html_file;
          filename = lower e (fname html_file)
      in case detect_platform filename html_content of
           (found, Inl err) \<Rightarrow> (w, Inl err)
         | (Some p, Inr (Some n)) \<Rightarrow>
             (case extract_timestamp_from_filename (now_at e (fname html_file)) filename of
                Inl err \<Rightarrow> (w, Inl err)
              | Inr ts \<Rightarrow>
                  (w, Inr \<lparr>platform = p, followers = n, timestamp = ts,
                           source_file = fname html_file\<rparr>))
         | (found, Inr count) \<Rightarrow>
             (says [CouldNotExtractMsg (fname html_file)] w,
              Inl (CouldNotExtract (fname html_file))))"

text \<open>The \<^verbatim>\<open>for\<close> loop of \<open>process_all_html_files\<close>, with the counter \<open>processed\<close>.\<close>

fun process_files :: "env \<Rightarrow> html_file list \<Rightarrow> nat \<Rightarrow> world \<Rightarrow> world \<times> (error + nat)" where
  "process_files e [] processed w = (w, Inr processed)"
| "process_files e (html_file # rest) processed w =
     (case process_html_file e html_file (says [ProcessingFile (fname html_file)] w) of
        (w1, Inl err) \<Rightarrow> (w1, Inl err)
      | (w1, Inr entry) \<Rightarrow>
          (case append_data entry w1 of
             (w2, Inl err) \<Rightarrow> (w2, Inl err)
           | (w2, Inr u) \<Rightarrow> process_files e rest (processed + 1) (says [Blank] w2)))"

subsection \<open>Floats and number formats\<close>

text \<open>
  A Python \<^verbatim>\<open>float\<close> is a binary64 number. \<open>Finite s m q\<close> stands for the number
  \<open>m * 2 ^ q\<close>, negative when \<open>s\<close> holds (a zero keeps its sign); \<open>Infinity s\<close> is
  \<^verbatim>\<open>inf\<close> or \<^verbatim>\<open>-inf\<close>. All arithmetic is on natural numbers: \<open>scaled n d q\<close> is the
  fraction \<open>(n / d) / 2 ^ q\<close>, \<open>div_half_even\<close> rounds a fraction to the nearest integer,
  ties to the even one, and \<open>round_binary64 n d\<close> is the binary64 number nearest to
  \<open>n / d\<close> for positive \<open>n\<close> and \<open>d\<close>: 53 bits below the leading bit, fewer in the
  subnormal range, whose exponent is fixed at \<open>-1022\<close>.
\<close>

datatype pyfloat = Finite bool nat int | Infinity bool

fun bit_length :: "nat \<Rightarrow> nat" where
  "bit_length n = (if n = 0 then 0 else Suc (bit_length (n div 2)))"

declare bit_length.simps [simp del]

definition scaled :: "nat \<Rightarrow> nat \<Rightarrow> int \<Rightarrow> nat \<times> nat" where
  "scaled n d q = (if 0 \<le> q then (n, d * 2 ^ nat q) else (n * 2 ^ nat (- q), d))"

definition div_half_even :: "nat \<Rightarrow> nat \<Rightarrow> nat" where
  "div_half_even n d =
     (let f = n div d; r2 = 2 * (n mod d)
      in if r2 < d then f else if d < r2 then f + 1 else if even f then f else f + 1)"

definition round_binary64 :: "nat \<Rightarrow> nat \<Rightarrow> nat \<times> int" where
  "round_binary64 n d =
     (let c = int (bit_length n) - int (bit_length d);
          e = (case scaled n d c of (a, b) \<Rightarrow> if b \<le> a then c else c - 1);
          q = max e (- 1022) - 52
      in case scaled n d q of (a, b) \<Rightarrow> (div_half_even a b, q))"

text \<open>A rounded magnitude \<open>m * 2 ^ q\<close> that has reached \<open>2 ^ 1024\<close> is too large for a float.\<close>

definition overflows :: "nat \<times> int \<Rightarrow> bool" where
  "overflows r = (971 < snd r \<or> snd r = 971 \<and> 2 ^ 53 \<le> fst r)"

text \<open>
  \<^verbatim>\<open>a / b\<close> for two integers is the exact quotient, correctly rounded; a quotient too
  large for a float raises OverflowError.
\<close>

definition int_truediv :: "int \<Rightarrow> int \<Rightarrow> error + pyfloat" where
  "int_truediv a b =
     (if b = 0 then Inl ZeroDivisionError
      else if a = 0 then Inr (Finite (b < 0) 0 0)
      else (let r = round_binary64 (nat \<bar>a\<bar>) (nat \<bar>b\<bar>)
            in if overflows r then Inl OverflowError
               else Inr (Finite ((a < 0) \<noteq> (b < 0)) (fst r) (snd r))))"

text \<open>\<^verbatim>\<open>x * 100\<close> for a float \<open>x\<close>: the exact product, rounded; too large a product is \<^verbatim>\<open>inf\<close>.\<close>

definition times_100 :: "pyfloat \<Rightarrow> pyfloat" where
  "times_100 x =
     (case x of
        Infinity s \<Rightarrow> Infinity s
      | Finite s m q \<Rightarrow>
          if m = 0 then Finite s 0 0
          else (let r = (case scaled (m * 100) 1 (- q) of (a, b) \<Rightarrow> round_binary64 a b)
                in if overflows r then Infinity s else Finite s (fst r) (snd r)))"

text \<open>
  The format \<^verbatim>\<open>+.2f\<close>: the sign, then the exact value rounded to hundredths, ties to
  even. The formats \<^verbatim>\<open>,\<close> and \<^verbatim>\<open>+,\<close> of an integer: the digits in groups of three.
\<close>

definition format_2f :: "pyfloat \<Rightarrow> str" where
  "format_2f x =
     (case x of
        Infinity s \<Rightarrow> (if s then ascii ''-inf'' else ascii ''+inf'')
      | Finite s m q \<Rightarrow>
          (let r = (case scaled (m * 100) 1 (- q) of (a, b) \<Rightarrow> div_half_even a b)
           in (if s then [45] else [43]) @ decimal (r div 100) @ [46] @ zfill 2 (r mod 100)))"

fun commas :: "str \<Rightarrow> str" where
  "commas ds =
     (if length ds \<le> 3 then ds
      else commas (take (length ds - 3) ds) @ [44] @ drop (length ds - 3) ds)"

declare commas.simps [simp del]

text \<open>
  Past 4300 digits the conversion of an integer to decimal text raises ValueError (the
  sign does not count).
\<close>

definition format_int :: "bool \<Rightarrow> int \<Rightarrow> error + str" where
  "format_int signed n =
     (let ds = decimal (nat \<bar>n\<bar>)
      in if 4300 < length ds then Inl ValueError
         else Inr ((if n < 0 then [45] else if signed then [43] else []) @ commas ds))"

subsection \<open>Summary\<close>

text \<open>
  \<^verbatim>\<open>(growth / first_count * 100) if first_count > 0 else 0\<close>; the integer 0 of the second
  branch is formatted as the float zero.
\<close>

definition growth_pct :: "int \<Rightarrow> int \<Rightarrow> error + pyfloat" where
  "growth_pct growth first_count =
     (if first_count > 0
      then (case int_truediv growth first_count of
              Inl err \<Rightarrow> Inl err
            | Inr x \<Rightarrow> Inr (times_100 x))
      else Inr (Finite False 0 0))"

text \<open>
  The body of the loop over the three platforms. The percentage is computed before the
  line is formatted; the fields of the line are formatted from left to right.
\<close>

definition growth_line :: "history \<Rightarrow> str \<Rightarrow> str \<Rightarrow> str \<Rightarrow> error + msg list" where
  "growth_line history first_date last_date name =
     (case (map_of history first_date, map_of history last_date) of
        (Some first_day, Some last_day) \<Rightarrow>
          (case (map_of first_day name, map_of last_day name) of
             (Some first_count, Some last_count) \<Rightarrow>
               (let growth = last_count - first_count
                in case growth_pct growth first_count of
                     Inl err \<Rightarrow> Inl err
                   | Inr pct \<Rightarrow>
                       (case format_int False first_count of
                          Inl err \<Rightarrow> Inl err
                        | Inr first_text \<Rightarrow>
                            (case format_int False last_count of
                               Inl err \<Rightarrow> Inl err
                             | Inr last_text \<Rightarrow>
                                 (case format_int True growth of
                                    Inl err \<Rightarrow> Inl err
                                  | Inr growth_text \<Rightarrow>
                                      Inr [GrowthLine name first_text last_text growth_text
                                             (format_2f pct)]))))
           | _ \<Rightarrow> Inr [])
      | _ \<Rightarrow> Inr [])"

text \<open>The loop over the three platforms: a line that raises ends it.\<close>

fun growth_lines :: "history \<Rightarrow> str \<Rightarrow> str \<Rightarrow> str list \<Rightarrow> world \<Rightarrow> world \<times> (error + unit)" where
  "growth_lines history first_date last_date [] w = (w, Inr ())"
| "growth_lines history first_date last_date (name # names) w =
     (case growth_line history first_date last_date name of
        Inl err \<Rightarrow> (w, Inl err)
      | Inr ms \<Rightarrow> growth_lines history first_date last_date names (says ms w))"

text \<open>
  The two loops of "Data by date", as the lines they print and how they end: the lines
  printed before a count fails to format stay printed.
\<close>

fun platform_lines :: "(str \<times> int) list \<Rightarrow> msg list \<times> (error + unit)" where
  "platform_lines [] = ([], Inr ())"
| "platform_lines ((name, count) # rest) =
     (case format_int False count of
        Inl err \<Rightarrow> ([], Inl err)
      | Inr t \<Rightarrow> (case platform_lines rest of (ms, r) \<Rightarrow> (PlatformLine name t # ms, r)))"

fun date_lines :: "history \<Rightarrow> str list \<Rightarrow> msg list \<times> (error + unit)" where
  "date_lines history [] = ([], Inr ())"
| "date_lines history (date # dates) =
     (case platform_lines
             (sort_key fst (case map_of history date of None \<Rightarrow> [] | Some platforms \<Rightarrow> platforms)) of
        (ms, Inl err) \<Rightarrow> (DateHeader date # ms, Inl err)
      | (ms, Inr u) \<Rightarrow>
          (case date_lines history dates of (ms', r) \<Rightarrow> (DateHeader date # ms @ ms', r)))"

definition display_summary :: "world \<Rightarrow> world \<times> (error + unit)" where
  "display_summary w =
     (case load_existing_data w of
        (w1, Inl err) \<Rightarrow> (w1, Inl err)
      | (w1, Inr history) \<Rightarrow>
          if history = [] then (says [NoData] w1, Inr ())
          else
            (let sorted_dates = sort (map fst history);
                 w2 = says [Rule, SummaryTitle, Rule, TotalDates (length sorted_dates),
                            DateRange (hd sorted_dates) (last sorted_dates), DataByDate] w1
             in case date_lines history sorted_dates of
                  (ms, Inl err) \<Rightarrow> (says ms w2, Inl err)
                | (ms, Inr u) \<Rightarrow>
                    (case (if length sorted_dates > 1
                           then growth_lines history (hd sorted_dates) (last sorted_dates)
                                  [ascii ''douyin'', ascii ''bilibili'', ascii ''xiaohongshu'']
                                  (says [GrowthTitle] (says ms w2))
                           else (says ms w2, Inr ())) of
                       (w4, Inl err) \<Rightarrow> (w4, Inl err)
                     | (w4, Inr u) \<Rightarrow> (says [Rule] w4, Inr ()))))"

text \<open>
  \<open>process_all_html_files\<close> has bare \<^verbatim>\<open>return\<close>s and otherwise runs off its end: the
  value a caller receives is \<^verbatim>\<open>None\<close>, modelled by \<open>None\<close> of type \<open>int option\<close>.
  Paths of one directory sort by their names.
\<close>

definition process_all_html_files :: "env \<Rightarrow> world \<Rightarrow> world \<times> (error + int option)" where
  "process_all_html_files e w =
     (case html_cache_dir w of
        None \<Rightarrow> (says [DirNotFound] w, Inr None)
      | Some html_files \<Rightarrow>
          if html_files = [] then (says [NoHtmlFiles] w, Inr None)
          else
            (case process_files e (sort_key fname html_files) 0
                    (says [Rule, ProcessingCount (length html_files), Rule] w) of
               (w1, Inl err) \<Rightarrow> (w1, Inl err)
             | (w1, Inr processed) \<Rightarrow>
                 (case display_summary
                         (says [Rule, Processed processed (length html_files), DataSaved, Rule] w1) of
                    (w2, Inl err) \<Rightarrow> (w2, Inl err)
                  | (w2, Inr u) \<Rightarrow> (w2, Inr None))))"

section \<open>What a pattern denotes\<close>

text \<open>
  \<open>accepts p s r\<close>: the pattern \<open>p\<close> matches some prefix of \<open>s\<close>, in whatever way, and
  \<open>r\<close> lists the input remaining at the marks and at the end. This is the language of the
  pattern, without the order in which the matcher tries the alternatives. \<open>occurs p s\<close>:
  the pattern matches somewhere in \<open>s\<close>.
\<close>

fun accepts :: "regex \<Rightarrow> str \<Rightarrow> str list \<Rightarrow> bool" where
  "accepts [] s r = (r = [s])"
| "accepts (Mark # p) s r = (\<exists>r'. r = s # r' \<and> accepts p s r')"
| "accepts (Sym c # p) s r = (\<exists>x xs. s = x # xs \<and> cls_ok c x \<and> accepts p xs r)"
| "accepts (Star c # p) s r = (\<exists>a t. s = a @ t \<and> list_all (cls_ok c) a \<and> accepts p t r)"
| "accepts (Lazy c # p) s r = (\<exists>a t. s = a @ t \<and> list_all (cls_ok c) a \<and> accepts p t r)"

definition occurs :: "regex \<Rightarrow> str \<Rightarrow> bool" where
  "occurs p s = (\<exists>pre rest r. s = pre @ rest \<and> accepts p rest r)"

text \<open>The count a history holds for a date and a platform.\<close>

definition count_at :: "history \<Rightarrow> str \<Rightarrow> str \<Rightarrow> int option" where
  "count_at h d p = (case map_of h d of None \<Rightarrow> None | Some platforms \<Rightarrow> map_of platforms p)"

text \<open>The history that \<open>append_data\<close> writes when it has loaded \<open>h\<close>.\<close>

definition merged :: "entry \<Rightarrow> history \<Rightarrow> history" where
  "merged e h =
     (let d = date_of (timestamp e);
          h1 = (if map_of h d = None then h @ [(d, [])] else h)
      in AList.update d
           (AList.update (platform e) (followers e) (case map_of h1 d of None \<Rightarrow> [] | Some ps \<Rightarrow> ps))
           h1)"

text \<open>The platforms of the growth analysis, in the order of the program.\<close>

definition tracked :: "str list" where
  "tracked = [ascii ''douyin'', ascii ''bilibili'', ascii ''xiaohongshu'']"

text \<open>
  \<open>loaded w\<close> is the history that \<open>load_existing_data\<close> returns in the world \<open>w\<close>,
  \<open>read_entry e f\<close> what \<open>process_html_file\<close> returns or raises for the file \<open>f\<close>
  (it does not depend on the world), and \<open>merge_all h entries\<close> the history after the
  entries have been merged into \<open>h\<close> one after the other.
\<close>

definition loaded :: "world \<Rightarrow> history" where
  "loaded w = (case snd (load_existing_data w) of Inl err \<Rightarrow> [] | Inr h \<Rightarrow> h)"

definition read_entry :: "env \<Rightarrow> html_file \<Rightarrow> error + entry" where
  "read_entry e f =
     snd (process_html_file e f \<lparr>html_cache_dir = None, output_file = None, stdout = []\<rparr>)"

definition merge_all :: "history \<Rightarrow> entry list \<Rightarrow> history" where
  "merge_all h entries = foldl (\<lambda>acc en. merged en acc) h entries"

section \<open>Sample inputs\<close>

definition zero_page :: str where
  \<open>zero_page = ascii ''<span class="count">0</span><span class="shows">'' @ fensi @ ascii ''</span>''\<close>

definition no_file :: world where
  "no_file = \<lparr>html_cache_dir = None, output_file = None, stdout = []\<rparr>"

definition entry_532 :: entry where
  "entry_532 = \<lparr>platform = ascii ''bilibili'', followers = 532,
     timestamp = ascii ''2025-11-12T15:47:53'', source_file = ascii ''bilibili_20251112_154753.html''\<rparr>"

definition entry_540 :: entry where
  "entry_540 = \<lparr>platform = ascii ''bilibili'', followers = 540,
     timestamp = ascii ''2025-11-12T18:00:00'', source_file = ascii ''bilibili_20251112_180000.html''\<rparr>"

definition two_day_file :: world where
  "two_day_file = \<lparr>html_cache_dir = None,
     output_file = Some (Stored [(ascii ''2025-11-12'', [(ascii ''bilibili'', 532), (ascii ''douyin'', 5439)]),
                                 (ascii ''2025-11-13'', [(ascii ''bilibili'', 533)])]),
     stdout = []\<rparr>"

definition ascii_lower :: "str \<Rightarrow> str" where
  "ascii_lower s = map (\<lambda>c. if 65 \<le> c \<and> c \<le> 90 then c + 32 else c) s"

definition sample_env :: env where
  "sample_env = \<lparr>lower = ascii_lower, now_at = (\<lambda>name. ascii ''2026-01-01T00:00:00.000001'')\<rparr>"

definition bilibili_page :: str where
  \<open>bilibili_page =
     ascii ''<span data-v-8c500df6="" class="nav-statistics__item-text">'' @ fensishu @
     ascii ''</span><span data-v-8c500df6="" class="nav-statistics__item-num" title="532">532</span>''\<close>

definition douyin_page :: str where
  \<open>douyin_page =
     ascii ''<div class="Q1A_pjwq ELUP9h2u" data-e2e="user-info-fans"><div class="uvGnYXqn">'' @ fensi @
     ascii ''</div><div class="C1cxu0Vq">5439</div></div>''\<close>

definition xiaohongshu_page :: str where
  \<open>xiaohongshu_page =
     ascii ''<span class="count" data-v-18b45ae8="">1865</span><span class="shows" data-v-18b45ae8="">'' @
     fensi @ ascii ''</span>''\<close>

definition bilibili_file :: html_file where
  "bilibili_file = \<lparr>fname = ascii ''bilibili_20251112_100000.html'', body = bilibili_page\<rparr>"

definition douyin_file :: html_file where
  "douyin_file = \<lparr>fname = ascii ''douyin_20251113_100000.html'', body = douyin_page\<rparr>"

definition weibo_file :: html_file where
  "weibo_file = \<lparr>fname = ascii ''weibo_20251113_100000.html'', body = douyin_page\<rparr>"

definition xiaohongshu_file :: html_file where
  "xiaohongshu_file = \<lparr>fname = ascii ''xiaohongshu_20251114_100000.html'', body = xiaohongshu_page\<rparr>"

definition four_files :: world where
  "four_files = \<lparr>html_cache_dir = Some [xiaohongshu_file, weibo_file, douyin_file, bilibili_file],
     output_file = None, stdout = []\<rparr>"

definition one_file :: world where
  "one_file = \<lparr>html_cache_dir = Some [bilibili_file], output_file = None, stdout = []\<rparr>"

definition gap_history :: world where
  "gap_history = \<lparr>html_cache_dir = None,
     output_file = Some (Stored [(ascii ''2025-11-13'', [(ascii ''bilibili'', 120), (ascii ''douyin'', 100)]),
                                 (ascii ''2025-11-12'', [(ascii ''bilibili'', 100)]),
                                 (ascii ''2025-11-14'', [(ascii ''douyin'', 150)])]),
     stdout = []\<rparr>"

definition growth_history :: world where
  "growth_history = \<lparr>html_cache_dir = None,
     output_file = Some (Stored [(ascii ''2025-11-12'', [(ascii ''bilibili'', 100), (ascii ''douyin'', 0)]),
                                 (ascii ''2025-11-13'', [(ascii ''bilibili'', 150), (ascii ''douyin'', 7)])]),
     stdout = []\<rparr>"

section \<open>Properties of the matcher\<close>

lemma re_match_sound: "re_match p s = Some r \<Longrightarrow> accepts p s r"
proof (induction p s arbitrary: r rule: re_match.induct)
  case (6 c p x xs)
  show ?case
  proof (cases "cls_ok c x")
    case True
    show ?thesis
    proof (cases "re_match (Star c # p) xs")
      case None
      with 6 True have "accepts p (x # xs) r" by simp
      then have "x # xs = [] @ (x # xs) \<and> list_all (cls_ok c) [] \<and> accepts p (x # xs) r" by simp
      then show ?thesis unfolding accepts.simps by blast
    next
      case (Some r')
      with 6 True have "accepts (Star c # p) xs r" by simp
      then obtain a t where "xs = a @ t" "list_all (cls_ok c) a" "accepts p t r" by auto
      with True have "x # xs = (x # a) @ t \<and> list_all (cls_ok c) (x # a) \<and> accepts p t r" by simp
      then show ?thesis unfolding accepts.simps by blast
    qed
  next
    case False
    with 6 have "accepts p (x # xs) r" by simp
    then have "x # xs = [] @ (x # xs) \<and> list_all (cls_ok c) [] \<and> accepts p (x # xs) r" by simp
    then show ?thesis unfolding accepts.simps by blast
  qed
next
  case (8 c p x xs)
  show ?case
  proof (cases "re_match p (x # xs)")
    case (Some r')
    with 8 have "accepts p (x # xs) r" by simp
    then have "x # xs = [] @ (x # xs) \<and> list_all (cls_ok c) [] \<and> accepts p (x # xs) r" by simp
    then show ?thesis unfolding accepts.simps by blast
  next
    case None
    with 8 have ok: "cls_ok c x" and "re_match (Lazy c # p) xs = Some r"
      by (auto split: if_splits)
    with 8 None have "accepts (Lazy c # p) xs r" by simp
    then obtain a t where "xs = a @ t" "list_all (cls_ok c) a" "accepts p t r" by auto
    with ok have "x # xs = (x # a) @ t \<and> list_all (cls_ok c) (x # a) \<and> accepts p t r" by simp
    then show ?thesis unfolding accepts.simps by blast
  qed
qed (auto split: if_splits)

lemma re_match_complete: "accepts p s r \<Longrightarrow> re_match p s \<noteq> None"
proof (induction p s arbitrary: r rule: re_match.induct)
  case (6 c p x xs)
  from "6.prems" obtain a t where at: "x # xs = a @ t" "list_all (cls_ok c) a" "accepts p t r"
    by auto
  show ?case
  proof (cases a)
    case Nil
    with at have acc: "accepts p (x # xs) r" by simp
    show ?thesis
    proof (cases "cls_ok c x")
      case True
      show ?thesis
      proof (cases "re_match (Star c # p) xs")
        case None
        with 6 True acc have "re_match p (x # xs) \<noteq> None" by blast
        with None True show ?thesis by simp
      next
        case (Some r')
        with True show ?thesis by simp
      qed
    next
      case False
      with 6 acc have "re_match p (x # xs) \<noteq> None" by blast
      with False show ?thesis by simp
    qed
  next
    case (Cons y a')
    with at have ok: "cls_ok c x" and "accepts (Star c # p) xs r" by auto
    then have "re_match (Star c # p) xs \<noteq> None" using 6 by blast
    with ok show ?thesis by (auto split: option.splits)
  qed
next
  case (8 c p x xs)
  from "8.prems" obtain a t where at: "x # xs = a @ t" "list_all (cls_ok c) a" "accepts p t r"
    by auto
  show ?case
  proof (cases a)
    case Nil
    with at have "accepts p (x # xs) r" by simp
    then have "re_match p (x # xs) \<noteq> None" using 8 by blast
    then show ?thesis by (auto split: option.splits)
  next
    case (Cons y a')
    with at have ok: "cls_ok c x" and acc: "accepts (Lazy c # p) xs r" by auto
    show ?thesis
    proof (cases "re_match p (x # xs)")
      case None
      with 8 ok acc have "re_match (Lazy c # p) xs \<noteq> None" by blast
      with None ok show ?thesis by simp
    next
      case (Some r')
      then show ?thesis by simp
    qed
  qed
qed auto

lemma re_search_None_iff:
  "re_search p s = None \<longleftrightarrow> (\<forall>pre rest. s = pre @ rest \<longrightarrow> re_match p rest = None)"
proof (induction s)
  case Nil
  then show ?case by simp
next
  case (Cons x xs)
  show ?case
  proof
    assume a: "re_search p (x # xs) = None"
    then have h: "re_match p (x # xs) = None" "re_search p xs = None"
      by (auto split: option.splits)
    show "\<forall>pre rest. x # xs = pre @ rest \<longrightarrow> re_match p rest = None"
    proof (intro allI impI)
      fix pre rest assume e: "x # xs = pre @ rest"
      show "re_match p rest = None"
      proof (cases pre)
        case Nil with e h show ?thesis by simp
      next
        case (Cons y pre')
        with e have "xs = pre' @ rest" by simp
        with h Cons.IH show ?thesis by blast
      qed
    qed
  next
    assume a: "\<forall>pre rest. x # xs = pre @ rest \<longrightarrow> re_match p rest = None"
    then have "re_match p (x # xs) = None" by simp
    moreover have "re_search p xs = None"
    proof -
      have "\<forall>pre rest. xs = pre @ rest \<longrightarrow> re_match p rest = None"
      proof (intro allI impI)
        fix pre rest assume "xs = pre @ rest"
        then have "x # xs = (x # pre) @ rest" by simp
        with a show "re_match p rest = None" by blast
      qed
      with Cons.IH show ?thesis by blast
    qed
    ultimately show "re_search p (x # xs) = None" by simp
  qed
qed

lemma re_search_None_occurs: "re_search p s = None \<longleftrightarrow> \<not> occurs p s"
  unfolding re_search_None_iff occurs_def
  using re_match_sound re_match_complete
  by (metis not_Some_eq)

lemma extract_with_None: "extract_with p s = Inr None \<longleftrightarrow> \<not> occurs p s"
  unfolding re_search_None_occurs[symmetric] extract_with_def
  by (auto split: option.splits sum.splits)


lemma isdecimal_ascii: "c < 128 \<Longrightarrow> isdecimal c = (48 \<le> c \<and> c \<le> 57)"
  by (auto simp: isdecimal_def digit_value_def nd_zeros_def)

text \<open>
  C2. An extractor returns \<^verbatim>\<open>None\<close> exactly when its pattern matches nowhere in the page,
  and \<^verbatim>\<open>None\<close> is not the count 0: a page whose pattern matches, with a count of zero or
  any other, is never reported as not found.
\<close>

theorem not_found_iff_no_match:
  "(extract_bilibili_followers html = Inr None \<longleftrightarrow> \<not> occurs bilibili_pattern html) \<and>
   (extract_douyin_followers html = Inr None \<longleftrightarrow> \<not> occurs douyin_pattern html) \<and>
   (extract_xiaohongshu_followers html = Inr None \<longleftrightarrow> \<not> occurs xiaohongshu_pattern html) \<and>
   (Inr None :: error + int option) \<noteq> Inr (Some 0)"
  by (simp add: extract_bilibili_followers_def extract_douyin_followers_def
      extract_xiaohongshu_followers_def extract_with_None)

lemmas eval_defs = extract_bilibili_followers_def extract_douyin_followers_def
      extract_xiaohongshu_followers_def extract_with_def bilibili_pattern_def douyin_pattern_def
      xiaohongshu_pattern_def lits_def ascii_def fensi_def fensishu_def group_def py_int_def
      int_max_str_digits_def dval_def isdecimal_def digit_value_def nd_zeros_def

theorem not_found_iff_no_match_witness:
  "\<not> occurs bilibili_pattern (ascii ''<html></html>'') \<and>
   extract_bilibili_followers (ascii ''<html></html>'') = Inr None \<and>
   \<not> occurs douyin_pattern (ascii ''<html></html>'') \<and>
   extract_douyin_followers (ascii ''<html></html>'') = Inr None \<and>
   \<not> occurs xiaohongshu_pattern (ascii ''<html></html>'') \<and>
   extract_xiaohongshu_followers (ascii ''<html></html>'') = Inr None \<and>
   occurs xiaohongshu_pattern zero_page \<and>
   extract_xiaohongshu_followers zero_page = Inr (Some 0)"
proof -
  have b: "extract_bilibili_followers (ascii ''<html></html>'') = Inr None"
    by (simp add: eval_defs)
  have d: "extract_douyin_followers (ascii ''<html></html>'') = Inr None"
    by (simp add: eval_defs)
  have x: "extract_xiaohongshu_followers (ascii ''<html></html>'') = Inr None"
    by (simp add: eval_defs)
  have z: "extract_xiaohongshu_followers zero_page = Inr (Some 0)"
    by (simp add: eval_defs zero_page_def)
  from b d x z not_found_iff_no_match [of "ascii ''<html></html>''"]
    not_found_iff_no_match [of zero_page]
  show ?thesis by simp
qed

text \<open>
  C9. The name \<^verbatim>\<open>x_99999999_999999.html\<close> matches the pattern of the two tokens, and the
  parser then raises: it neither returns a timestamp nor falls back to the current time.
\<close>

theorem invalid_date_raises:
  "re_search timestamp_pattern (ascii ''x_99999999_999999.html'') \<noteq> None \<and>
   extract_timestamp_from_filename now (ascii ''x_99999999_999999.html'') = Inl ValueError"
  by (simp add: extract_timestamp_from_filename_def timestamp_pattern_def ascii_def isdecimal_def
      digit_value_def group_def strptime_def Let_def numeral_eq_Suc in_range_def)


section \<open>History store\<close>

text \<open>
  C4. \<open>load_existing_data\<close> returns the empty mapping when the output file is absent, and
  when the file is there but does not parse it prints the error and returns the empty
  mapping; it never raises.
\<close>

theorem load_never_raises:
  "(output_file w = None \<longrightarrow> load_existing_data w = (w, Inr [])) \<and>
   (output_file w = Some Malformed \<longrightarrow>
      load_existing_data w = (says [ErrorLoading JSONDecodeError] w, Inr [])) \<and>
   (\<forall>h. output_file w = Some (Stored h) \<longrightarrow> load_existing_data w = (w, Inr h)) \<and>
   (\<forall>err. snd (load_existing_data w) \<noteq> Inl err)"
  by (auto simp: load_existing_data_def json_load_def split: option.splits contents.splits)

theorem load_never_raises_witness:
  "output_file no_file = None \<and> load_existing_data no_file = (no_file, Inr []) \<and>
   output_file (no_file\<lparr>output_file := Some Malformed\<rparr>) = Some Malformed \<and>
   load_existing_data (no_file\<lparr>output_file := Some Malformed\<rparr>) =
     (no_file\<lparr>output_file := Some Malformed, stdout := [ErrorLoading JSONDecodeError]\<rparr>, Inr [])"
  using load_never_raises [of no_file]
    load_never_raises [of "no_file\<lparr>output_file := Some Malformed\<rparr>"]
  by (simp add: no_file_def says_def)

lemma load_cases:
  "(\<exists>h. load_existing_data w = (w, Inr h) \<and> output_file w = Some (Stored h)) \<or>
   (load_existing_data w = (w, Inr []) \<and> output_file w = None) \<or>
   (load_existing_data w = (says [ErrorLoading JSONDecodeError] w, Inr []) \<and>
      output_file w = Some Malformed)"
proof (cases "output_file w")
  case None
  then show ?thesis by (simp add: load_existing_data_def)
next
  case (Some c)
  then show ?thesis by (cases c) (simp_all add: load_existing_data_def json_load_def)
qed

lemma append_data_saved:
  "load_existing_data w = (w1, Inr h) \<Longrightarrow>
   output_file (fst (append_data e w)) = Some (Stored (merged e h)) \<and> snd (append_data e w) = Inr ()"
  by (simp add: append_data_def Let_def save_data_def says_def merged_def)

lemma count_at_merged:
  "count_at (merged e h) d p =
     (if d = date_of (timestamp e) \<and> p = platform e then Some (followers e) else count_at h d p)"
proof (cases "map_of h (date_of (timestamp e))")
  case None
  then show ?thesis
    by (auto simp: merged_def count_at_def Let_def update_conv' map_add_def split: option.splits)
next
  case (Some ps)
  then show ?thesis
    by (simp add: merged_def count_at_def Let_def update_conv' split: option.splits)
qed


lemma merged_overwrite:
  assumes "map_of h (date_of (timestamp e)) = Some ps"
  shows "merged e h = AList.update (date_of (timestamp e)) (AList.update (platform e) (followers e) ps) h"
  using assms by (simp add: merged_def Let_def)

lemma append_data_overwrite_msg:
  assumes "output_file w = Some (Stored h)" "map_of h (date_of (timestamp e)) = Some ps"
    "map_of ps (platform e) = Some old"
  shows "Overwriting (platform e) (date_of (timestamp e)) \<in> set (stdout (fst (append_data e w)))"
  using assms
  by (simp add: append_data_def load_existing_data_def json_load_def Let_def save_data_def says_def)

lemma update_drops_old:
  assumes "distinct (map fst ps)" "old \<noteq> v"
  shows "(k, old) \<notin> set (AList.update k v ps)"
proof
  assume "(k, old) \<in> set (AList.update k v ps)"
  moreover have "distinct (map fst (AList.update k v ps))"
    using assms(1) by (rule distinct_update)
  ultimately have "map_of (AList.update k v ps) k = Some old" by simp
  then show False using assms(2) by (simp add: update_conv')
qed

text \<open>
  C3. Merging an entry into an empty history stores exactly the one date with the one
  platform and its count (for 2025-11-12, bilibili, 532 see the witness). When the history
  already has a count for the date and platform of the entry, the merge keeps the keys of
  the history and of that date, stores the new count in place of the old one, and prints
  the overwrite warning.
\<close>

theorem merge_overwrites:
  "(output_file w = None \<or> output_file w = Some (Stored []) \<longrightarrow>
      output_file (fst (append_data e w)) =
        Some (Stored [(date_of (timestamp e), [(platform e, followers e)])])) \<and>
   (\<forall>h ps old.
      output_file w = Some (Stored h) \<and> map_of h (date_of (timestamp e)) = Some ps \<and>
      map_of ps (platform e) = Some old \<longrightarrow>
      (\<exists>h' ps'.
         output_file (fst (append_data e w)) = Some (Stored h') \<and>
         map fst h' = map fst h \<and>
         map_of h' (date_of (timestamp e)) = Some ps' \<and>
         map fst ps' = map fst ps \<and>
         map_of ps' (platform e) = Some (followers e) \<and>
         (distinct (map fst ps) \<and> old \<noteq> followers e \<longrightarrow> (platform e, old) \<notin> set ps') \<and>
         Overwriting (platform e) (date_of (timestamp e)) \<in> set (stdout (fst (append_data e w)))))"
proof (intro conjI allI impI)
  assume "output_file w = None \<or> output_file w = Some (Stored [])"
  then have "load_existing_data w = (w, Inr [])"
    by (auto simp: load_existing_data_def json_load_def)
  from append_data_saved [OF this, of e]
  show "output_file (fst (append_data e w)) =
      Some (Stored [(date_of (timestamp e), [(platform e, followers e)])])"
    by (simp add: merged_def)
next
  fix h ps old
  assume a: "output_file w = Some (Stored h) \<and> map_of h (date_of (timestamp e)) = Some ps \<and>
      map_of ps (platform e) = Some old"
  let ?d = "date_of (timestamp e)"
  let ?ps' = "AList.update (platform e) (followers e) ps"
  from a have l: "load_existing_data w = (w, Inr h)"
    by (simp add: load_existing_data_def json_load_def)
  have 1: "output_file (fst (append_data e w)) = Some (Stored (merged e h))"
    using append_data_saved [OF l, of e] by simp
  have m: "merged e h = AList.update ?d ?ps' h"
    using a by (simp add: merged_overwrite)
  have "map_of h ?d \<noteq> None" using a by simp
  then have dk: "?d \<in> set (map fst h)" by (simp add: map_of_eq_None_iff)
  have "map_of ps (platform e) \<noteq> None" using a by simp
  then have pk: "platform e \<in> set (map fst ps)" by (simp add: map_of_eq_None_iff)
  have 2: "map fst (merged e h) = map fst h" using dk by (simp add: m update_keys)
  have 3: "map_of (merged e h) ?d = Some ?ps'" by (simp add: m update_conv')
  have 4: "map fst ?ps' = map fst ps" using pk by (simp add: update_keys)
  have 5: "map_of ?ps' (platform e) = Some (followers e)" by (simp add: update_conv')
  have 6: "distinct (map fst ps) \<and> old \<noteq> followers e \<longrightarrow> (platform e, old) \<notin> set ?ps'"
    by (simp add: update_drops_old)
  have 7: "Overwriting (platform e) ?d \<in> set (stdout (fst (append_data e w)))"
    using a by (simp add: append_data_overwrite_msg)
  show "\<exists>h' ps'.
         output_file (fst (append_data e w)) = Some (Stored h') \<and>
         map fst h' = map fst h \<and>
         map_of h' (date_of (timestamp e)) = Some ps' \<and>
         map fst ps' = map fst ps \<and>
         map_of ps' (platform e) = Some (followers e) \<and>
         (distinct (map fst ps) \<and> old \<noteq> followers e \<longrightarrow> (platform e, old) \<notin> set ps') \<and>
         Overwriting (platform e) (date_of (timestamp e)) \<in> set (stdout (fst (append_data e w)))"
    using 1 2 3 4 5 6 7 by blast
qed

lemmas world_eval = append_data_def load_existing_data_def json_load_def Let_def save_data_def
  says_def date_of_def ascii_def

theorem merge_overwrites_witness:
  "output_file no_file = None \<and>
   output_file (fst (append_data entry_532 no_file)) =
     Some (Stored [(ascii ''2025-11-12'', [(ascii ''bilibili'', 532)])]) \<and>
   output_file (fst (append_data entry_540 (fst (append_data entry_532 no_file)))) =
     Some (Stored [(ascii ''2025-11-12'', [(ascii ''bilibili'', 540)])]) \<and>
   Overwriting (ascii ''bilibili'') (ascii ''2025-11-12'')
     \<in> set (stdout (fst (append_data entry_540 (fst (append_data entry_532 no_file)))))"
proof -
  let ?w1 = "fst (append_data entry_532 no_file)"
  have d1: "date_of (timestamp entry_532) = ascii ''2025-11-12''"
    and d2: "date_of (timestamp entry_540) = ascii ''2025-11-12''"
    by (simp_all add: entry_532_def entry_540_def date_of_def ascii_def)
  have 0: "output_file no_file = None" by (simp add: no_file_def)
  with merge_overwrites [of no_file entry_532] d1
  have 1: "output_file ?w1 = Some (Stored [(ascii ''2025-11-12'', [(ascii ''bilibili'', 532)])])"
    by (simp add: entry_532_def)
  have hyp: "output_file ?w1 = Some (Stored [(ascii ''2025-11-12'', [(ascii ''bilibili'', 532)])]) \<and>
      map_of [(ascii ''2025-11-12'', [(ascii ''bilibili'', 532::int)])] (date_of (timestamp entry_540))
         = Some [(ascii ''bilibili'', 532)] \<and>
      map_of [(ascii ''bilibili'', 532::int)] (platform entry_540) = Some 532"
    using 1 d2 by (simp add: entry_540_def)
  from merge_overwrites [of ?w1 entry_540] hyp
  obtain h' ps' where r: "output_file (fst (append_data entry_540 ?w1)) = Some (Stored h')"
      "map fst h' = map fst [(ascii ''2025-11-12'', [(ascii ''bilibili'', 532::int)])]"
      "map_of h' (date_of (timestamp entry_540)) = Some ps'"
      "map fst ps' = map fst [(ascii ''bilibili'', 532::int)]"
      "map_of ps' (platform entry_540) = Some (followers entry_540)"
      "Overwriting (platform entry_540) (date_of (timestamp entry_540))
         \<in> set (stdout (fst (append_data entry_540 ?w1)))"
    by blast
  from r(4,5) have ps': "ps' = [(ascii ''bilibili'', 540)]"
    by (cases ps') (auto simp: entry_540_def split: if_splits)
  from r(2,3) d2 have "h' = [(ascii ''2025-11-12'', ps')]"
    by (cases h') (auto split: if_splits)
  with r(1,6) ps' 0 1 d2 show ?thesis by (simp add: entry_540_def)
qed

lemma map_of_merged_other:
  "d \<noteq> date_of (timestamp e) \<Longrightarrow> map_of (merged e h) d = map_of h d"
proof (cases "map_of h (date_of (timestamp e))")
  case None
  assume "d \<noteq> date_of (timestamp e)"
  with None show ?thesis
    by (simp add: merged_def Let_def update_conv' map_add_def split: option.splits)
next
  case (Some ps)
  assume "d \<noteq> date_of (timestamp e)"
  with Some show ?thesis by (simp add: merged_def Let_def update_conv')
qed

text \<open>
  C10. Whatever history was loaded, the history that a merge saves agrees with it at every
  pair of date and platform other than the pair of the entry, and the entry of every other
  date is untouched.
\<close>

theorem merge_frame:
  "load_existing_data w = (w1, Inr h) \<Longrightarrow>
   \<exists>h'. output_file (fst (append_data e w)) = Some (Stored h') \<and>
        (\<forall>d p. (d, p) \<noteq> (date_of (timestamp e), platform e) \<longrightarrow> count_at h' d p = count_at h d p) \<and>
        (\<forall>d. d \<noteq> date_of (timestamp e) \<longrightarrow> map_of h' d = map_of h d)"
proof -
  assume l: "load_existing_data w = (w1, Inr h)"
  have 1: "output_file (fst (append_data e w)) = Some (Stored (merged e h))"
    using append_data_saved [OF l, of e] by simp
  have 2: "\<forall>d p. (d, p) \<noteq> (date_of (timestamp e), platform e) \<longrightarrow>
      count_at (merged e h) d p = count_at h d p"
    by (simp add: count_at_merged)
  have 3: "\<forall>d. d \<noteq> date_of (timestamp e) \<longrightarrow> map_of (merged e h) d = map_of h d"
    by (simp add: map_of_merged_other)
  show ?thesis using 1 2 3 by blast
qed

theorem merge_frame_witness:
  "load_existing_data two_day_file =
     (two_day_file, Inr [(ascii ''2025-11-12'', [(ascii ''bilibili'', 532), (ascii ''douyin'', 5439)]),
                         (ascii ''2025-11-13'', [(ascii ''bilibili'', 533)])]) \<and>
   (\<exists>h'. output_file (fst (append_data entry_540 two_day_file)) = Some (Stored h') \<and>
      count_at h' (ascii ''2025-11-12'') (ascii ''douyin'') = Some 5439 \<and>
      count_at h' (ascii ''2025-11-13'') (ascii ''bilibili'') = Some 533)"
proof -
  have l: "load_existing_data two_day_file =
     (two_day_file, Inr [(ascii ''2025-11-12'', [(ascii ''bilibili'', 532), (ascii ''douyin'', 5439)]),
                         (ascii ''2025-11-13'', [(ascii ''bilibili'', 533)])])"
    by (simp add: two_day_file_def load_existing_data_def json_load_def)
  have d: "date_of (timestamp entry_540) = ascii ''2025-11-12''" "platform entry_540 = ascii ''bilibili''"
    by (simp_all add: entry_540_def date_of_def ascii_def)
  from merge_frame [OF l, of entry_540] obtain h' where
    h: "output_file (fst (append_data entry_540 two_day_file)) = Some (Stored h')"
       "\<forall>d p. (d, p) \<noteq> (date_of (timestamp entry_540), platform entry_540) \<longrightarrow>
          count_at h' d p = count_at [(ascii ''2025-11-12'', [(ascii ''bilibili'', 532), (ascii ''douyin'', 5439)]),
                         (ascii ''2025-11-13'', [(ascii ''bilibili'', 533)])] d p"
    by blast
  have "count_at h' (ascii ''2025-11-12'') (ascii ''douyin'') = Some 5439"
    using h(2) d by (simp add: count_at_def ascii_def)
  moreover have "count_at h' (ascii ''2025-11-13'') (ascii ''bilibili'') = Some 533"
    using h(2) d by (simp add: count_at_def ascii_def)
  ultimately show ?thesis using l h(1) by blast
qed

section \<open>Batch driver\<close>

lemma says_says: "says b (says a w) = says (a @ b) w"
  by (simp add: says_def)

lemma output_file_says [simp]: "output_file (says ms w) = output_file w"
  by (simp add: says_def)

lemma html_cache_dir_says [simp]: "html_cache_dir (says ms w) = html_cache_dir w"
  by (simp add: says_def)

lemma stdout_says [simp]: "stdout (says ms w) = stdout w @ ms"
  by (simp add: says_def)

lemma process_html_file_fails:
  assumes "fst (detect_platform (lower e (fname f)) (body f)) = None \<or>
           snd (detect_platform (lower e (fname f)) (body f)) = Inr None"
  shows "process_html_file e f w =
           (says [CouldNotExtractMsg (fname f)] w, Inl (CouldNotExtract (fname f)))"
proof -
  obtain found count where d: "detect_platform (lower e (fname f)) (body f) = (found, count)"
    by (cases "detect_platform (lower e (fname f)) (body f)")
  have n: "found = None \<longrightarrow> count = Inr None"
    using d by (auto simp: detect_platform_def split: if_splits)
  with assms d have "count = Inr None" by auto
  with d show ?thesis
    by (cases found) (simp_all add: process_html_file_def Let_def)
qed

lemma process_files_append:
  "process_files e xs k w = (w1, Inr k1) \<Longrightarrow>
   process_files e (xs @ ys) k w = process_files e ys k1 w1"
proof (induction xs arbitrary: k w)
  case Nil
  then show ?case by simp
next
  case (Cons x xs)
  then show ?case
    by (auto split: prod.splits sum.splits)
qed

lemma process_files_count:
  "process_files e xs k w = (w1, Inr k1) \<Longrightarrow> k1 = k + length xs"
proof (induction xs arbitrary: k w)
  case Nil
  then show ?case by simp
next
  case (Cons x xs)
  then show ?case
    by (fastforce split: prod.splits sum.splits)
qed


lemma read_entry_eq: "snd (process_html_file e f w) = read_entry e f"
  by (simp add: read_entry_def process_html_file_def Let_def
      split: prod.splits sum.splits option.splits)

lemma process_html_file_ok:
  "read_entry e f = Inr en \<Longrightarrow> process_html_file e f w = (w, Inr en)"
proof -
  assume a: "read_entry e f = Inr en"
  have "snd (process_html_file e f w) = Inr en"
    using a by (simp add: read_entry_eq)
  moreover have "snd (process_html_file e f w) = Inr en \<Longrightarrow> fst (process_html_file e f w) = w"
    by (auto simp: process_html_file_def Let_def split: prod.splits sum.splits option.splits)
  ultimately show ?thesis by (simp add: prod_eq_iff)
qed

lemma loaded_says [simp]: "loaded (says ms w) = loaded w"
  by (simp add: loaded_def load_existing_data_def says_def split: option.splits sum.splits)

lemma loaded_stored: "output_file w = Some (Stored h) \<Longrightarrow> loaded w = h"
  by (simp add: loaded_def load_existing_data_def json_load_def)

lemma append_data_eq:
  "snd (append_data en w) = Inr () \<and>
   output_file (fst (append_data en w)) = Some (Stored (merged en (loaded w)))"
proof -
  obtain w1 where l: "load_existing_data w = (w1, Inr (loaded w))"
    using load_cases [of w] by (auto simp: loaded_def)
  from append_data_saved [OF l, of en] show ?thesis by simp
qed

lemma process_files_good:
  "map (read_entry e) fs = map Inr entries \<Longrightarrow>
   snd (process_files e fs k w) = Inr (k + length fs) \<and>
   output_file (fst (process_files e fs k w)) =
     (if fs = [] then output_file w else Some (Stored (merge_all (loaded w) entries)))"
proof (induction fs arbitrary: entries k w)
  case Nil
  then show ?case by simp
next
  case (Cons f fs)
  from Cons.prems obtain en ens where e: "entries = en # ens" "read_entry e f = Inr en"
      "map (read_entry e) fs = map Inr ens"
    by (cases entries) auto
  let ?w0 = "says [ProcessingFile (fname f)] w"
  obtain w1 where a: "append_data en ?w0 = (w1, Inr ())"
    and o: "output_file w1 = Some (Stored (merged en (loaded w)))"
    using append_data_eq [of en ?w0] by (cases "append_data en ?w0") auto
  have p: "process_html_file e f ?w0 = (?w0, Inr en)"
    using e(2) by (rule process_html_file_ok)
  have step: "process_files e (f # fs) k w = process_files e fs (k + 1) (says [Blank] w1)"
    by (simp add: p a)
  have lo: "loaded (says [Blank] w1) = merged en (loaded w)"
    using o by (simp add: loaded_stored)
  from Cons.IH [OF e(3), of "k + 1" "says [Blank] w1"]
  have ih: "snd (process_files e fs (k + 1) (says [Blank] w1)) = Inr (k + 1 + length fs)"
    "output_file (fst (process_files e fs (k + 1) (says [Blank] w1))) =
       (if fs = [] then output_file (says [Blank] w1)
        else Some (Stored (merge_all (loaded (says [Blank] w1)) ens)))"
    by simp_all
  show ?case
  proof (cases "fs = []")
    case True
    with e(3) have "ens = []" by simp
    with ih True o e(1) show ?thesis
      unfolding step by (simp add: merge_all_def)
  next
    case False
    with ih lo e(1) show ?thesis
      unfolding step by (simp add: merge_all_def)
  qed
qed

lemma process_files_entries:
  "snd (process_files e fs k w) = Inr k' \<Longrightarrow> \<exists>entries. map (read_entry e) fs = map Inr entries"
proof (induction fs arbitrary: k w)
  case Nil
  then show ?case by simp
next
  case (Cons f fs)
  let ?w0 = "says [ProcessingFile (fname f)] w"
  obtain w1 r where p: "process_html_file e f ?w0 = (w1, r)"
    by (cases "process_html_file e f ?w0")
  show ?case
  proof (cases r)
    case (Inl err)
    with p Cons.prems show ?thesis by simp
  next
    case (Inr en)
    with p have re: "read_entry e f = Inr en"
      using read_entry_eq [of e f ?w0] by simp
    obtain w2 where a: "append_data en w1 = (w2, Inr ())"
      using append_data_eq [of en w1] by (cases "append_data en w1") auto
    from Cons.prems p Inr a
    have "snd (process_files e fs (k + 1) (says [Blank] w2)) = Inr k'" by simp
    from Cons.IH [OF this] obtain ens where "map (read_entry e) fs = map Inr ens" by blast
    with re have "map (read_entry e) (f # fs) = map Inr (en # ens)" by simp
    then show ?thesis by blast
  qed
qed

text \<open>
  C5. When the file names have been sorted and each file before \<open>f\<close> yields an entry, a file
  \<open>f\<close> whose lower-cased name holds no platform token, or whose extractor returns
  \<^verbatim>\<open>None\<close>, makes the run raise at once: the world at the abort is the one the loop over
  the files before \<open>f\<close> has left, with the two lines printed for \<open>f\<close>; the files after
  \<open>f\<close> have no part in it. All files before \<open>f\<close> have been counted, and the output file
  holds the loaded history with their entries merged.
\<close>

theorem fail_fast:
  assumes "html_cache_dir w = Some files"
    and "sort_key fname files = before @ f # rest"
    and "fst (detect_platform (lower e (fname f)) (body f)) = None \<or>
         snd (detect_platform (lower e (fname f)) (body f)) = Inr None"
    and "map (read_entry e) before = map Inr entries"
  shows "process_all_html_files e w =
           (says [ProcessingFile (fname f), CouldNotExtractMsg (fname f)]
              (fst (process_files e before 0
                      (says [Rule, ProcessingCount (length files), Rule] w))),
            Inl (CouldNotExtract (fname f))) \<and>
         snd (process_files e before 0 (says [Rule, ProcessingCount (length files), Rule] w)) =
           Inr (length before) \<and>
         output_file (fst (process_all_html_files e w)) =
           (if before = [] then output_file w
            else Some (Stored (merge_all (loaded w) entries)))"
proof -
  let ?w0 = "says [Rule, ProcessingCount (length files), Rule] w"
  let ?w1 = "fst (process_files e before 0 ?w0)"
  have ne: "files \<noteq> []" using assms(2) by auto
  have g: "snd (process_files e before 0 ?w0) = Inr (length before)"
    "output_file ?w1 = (if before = [] then output_file w
       else Some (Stored (merge_all (loaded w) entries)))"
    using process_files_good [OF assms(4), of 0 ?w0] by simp_all
  then have r: "process_files e before 0 ?w0 = (?w1, Inr (length before))"
    by (simp add: prod_eq_iff)
  have "process_files e (before @ f # rest) 0 ?w0 = process_files e (f # rest) (length before) ?w1"
    using r by (rule process_files_append)
  also have "\<dots> = (says [ProcessingFile (fname f), CouldNotExtractMsg (fname f)] ?w1,
            Inl (CouldNotExtract (fname f)))"
    using process_html_file_fails [OF assms(3), of "says [ProcessingFile (fname f)] ?w1"]
    by (simp add: says_says)
  finally have "process_all_html_files e w =
           (says [ProcessingFile (fname f), CouldNotExtractMsg (fname f)] ?w1,
            Inl (CouldNotExtract (fname f)))"
    using assms(1,2) ne by (simp add: process_all_html_files_def)
  with g show ?thesis by simp
qed

lemmas sample_defs = sample_env_def ascii_lower_def bilibili_file_def douyin_file_def weibo_file_def
  xiaohongshu_file_def bilibili_page_def douyin_page_def xiaohongshu_page_def

lemmas match_eval = extract_bilibili_followers_def extract_douyin_followers_def
  extract_xiaohongshu_followers_def extract_with_def bilibili_pattern_def douyin_pattern_def
  xiaohongshu_pattern_def lits_def ascii_def fensi_def fensishu_def group_def py_int_def
  int_max_str_digits_def dval_def isdecimal_def digit_value_def nd_zeros_def

lemma sorted_four:
  "sort_key fname [xiaohongshu_file, weibo_file, douyin_file, bilibili_file] =
     [bilibili_file, douyin_file] @ weibo_file # [xiaohongshu_file]"
  by (simp add: sample_defs ascii_def)

lemma weibo_unknown:
  "fst (detect_platform (lower sample_env (fname weibo_file)) (body weibo_file)) = None"
  by (simp add: detect_platform_def sample_defs ascii_def)

lemma decimal_digit: "n < 10 \<Longrightarrow> decimal n = [48 + n]"
  by (simp add: decimal.simps)

lemma decimal_more: "\<not> n < 10 \<Longrightarrow> decimal n = decimal (n div 10) @ [48 + n mod 10]"
  by (subst decimal.simps) simp

lemma timestamp_pattern_items:
  "timestamp_pattern = [Mark, Sym Digit, Sym Digit, Sym Digit, Sym Digit, Sym Digit, Sym Digit,
     Sym Digit, Sym Digit, Mark, Sym (Lit 95), Mark, Sym Digit, Sym Digit, Sym Digit, Sym Digit,
     Sym Digit, Sym Digit, Mark]"
  by (simp add: timestamp_pattern_def numeral_eq_Suc)

lemmas stamp_eval = extract_timestamp_from_filename_def timestamp_pattern_items group_def
  ascii_def isdecimal_def digit_value_def nd_zeros_def strptime_def Let_def field_value_def
  dval_def in_range_def days_in_month_def is_leap_def isoformat_def zfill_def decimal_digit
  decimal_more

lemma detect_bilibili:
  "detect_platform (lower sample_env (fname bilibili_file)) (body bilibili_file) =
     (Some (ascii ''bilibili''), Inr (Some 532))"
  by (simp add: detect_platform_def sample_defs match_eval)

lemma detect_douyin:
  "detect_platform (lower sample_env (fname douyin_file)) (body douyin_file) =
     (Some (ascii ''douyin''), Inr (Some 5439))"
  by (simp add: detect_platform_def sample_defs match_eval)

lemma stamp_bilibili:
  "extract_timestamp_from_filename now (lower sample_env (fname bilibili_file)) =
     Inr (ascii ''2025-11-12T10:00:00'')"
  by (simp add: sample_defs stamp_eval)

lemma stamp_douyin:
  "extract_timestamp_from_filename now (lower sample_env (fname douyin_file)) =
     Inr (ascii ''2025-11-13T10:00:00'')"
  by (simp add: sample_defs stamp_eval)

lemma process_bilibili:
  "process_html_file sample_env bilibili_file w =
     (w, Inr \<lparr>platform = ascii ''bilibili'', followers = 532,
              timestamp = ascii ''2025-11-12T10:00:00'', source_file = fname bilibili_file\<rparr>)"
  by (simp add: process_html_file_def Let_def detect_bilibili stamp_bilibili)

lemma process_douyin:
  "process_html_file sample_env douyin_file w =
     (w, Inr \<lparr>platform = ascii ''douyin'', followers = 5439,
              timestamp = ascii ''2025-11-13T10:00:00'', source_file = fname douyin_file\<rparr>)"
  by (simp add: process_html_file_def Let_def detect_douyin stamp_douyin)

lemma date_of_stamps:
  "date_of (ascii ''2025-11-12T10:00:00'') = ascii ''2025-11-12''"
  "date_of (ascii ''2025-11-13T10:00:00'') = ascii ''2025-11-13''"
  by (simp_all add: date_of_def ascii_def)

lemma read_bilibili:
  "read_entry sample_env bilibili_file =
     Inr \<lparr>platform = ascii ''bilibili'', followers = 532,
           timestamp = ascii ''2025-11-12T10:00:00'', source_file = fname bilibili_file\<rparr>"
  using read_entry_eq [of sample_env bilibili_file] by (simp add: process_bilibili)

lemma read_douyin:
  "read_entry sample_env douyin_file =
     Inr \<lparr>platform = ascii ''douyin'', followers = 5439,
           timestamp = ascii ''2025-11-13T10:00:00'', source_file = fname douyin_file\<rparr>"
  using read_entry_eq [of sample_env douyin_file] by (simp add: process_douyin)

lemma merged_two:
  "merge_all []
     [\<lparr>platform = ascii ''bilibili'', followers = 532,
        timestamp = ascii ''2025-11-12T10:00:00'', source_file = fname bilibili_file\<rparr>,
      \<lparr>platform = ascii ''douyin'', followers = 5439,
        timestamp = ascii ''2025-11-13T10:00:00'', source_file = fname douyin_file\<rparr>] =
   [(ascii ''2025-11-12'', [(ascii ''bilibili'', 532)]),
    (ascii ''2025-11-13'', [(ascii ''douyin'', 5439)])]"
  by (simp add: merge_all_def merged_def Let_def date_of_stamps) (simp add: ascii_def)

lemma merged_one:
  "merge_all []
     [\<lparr>platform = ascii ''bilibili'', followers = 532,
        timestamp = ascii ''2025-11-12T10:00:00'', source_file = fname bilibili_file\<rparr>] =
   [(ascii ''2025-11-12'', [(ascii ''bilibili'', 532)])]"
  by (simp add: merge_all_def merged_def Let_def date_of_stamps)

theorem fail_fast_witness:
  "html_cache_dir four_files = Some [xiaohongshu_file, weibo_file, douyin_file, bilibili_file] \<and>
   sort_key fname [xiaohongshu_file, weibo_file, douyin_file, bilibili_file] =
     [bilibili_file, douyin_file] @ weibo_file # [xiaohongshu_file] \<and>
   fst (detect_platform (lower sample_env (fname weibo_file)) (body weibo_file)) = None \<and>
   map (read_entry sample_env) [bilibili_file, douyin_file] =
     map Inr [\<lparr>platform = ascii ''bilibili'', followers = 532,
                timestamp = ascii ''2025-11-12T10:00:00'', source_file = fname bilibili_file\<rparr>,
              \<lparr>platform = ascii ''douyin'', followers = 5439,
                timestamp = ascii ''2025-11-13T10:00:00'', source_file = fname douyin_file\<rparr>] \<and>
   snd (process_all_html_files sample_env four_files) = Inl (CouldNotExtract (fname weibo_file)) \<and>
   output_file (fst (process_all_html_files sample_env four_files)) =
     Some (Stored [(ascii ''2025-11-12'', [(ascii ''bilibili'', 532)]),
                   (ascii ''2025-11-13'', [(ascii ''douyin'', 5439)])])"
proof -
  let ?files = "[xiaohongshu_file, weibo_file, douyin_file, bilibili_file]"
  let ?ens = "[\<lparr>platform = ascii ''bilibili'', followers = 532,
                timestamp = ascii ''2025-11-12T10:00:00'', source_file = fname bilibili_file\<rparr>,
              \<lparr>platform = ascii ''douyin'', followers = 5439,
                timestamp = ascii ''2025-11-13T10:00:00'', source_file = fname douyin_file\<rparr>]"
  have 1: "html_cache_dir four_files = Some ?files" by (simp add: four_files_def)
  have 3: "fst (detect_platform (lower sample_env (fname weibo_file)) (body weibo_file)) = None \<or>
      snd (detect_platform (lower sample_env (fname weibo_file)) (body weibo_file)) = Inr None"
    using weibo_unknown by (rule disjI1)
  have 4: "map (read_entry sample_env) [bilibili_file, douyin_file] = map Inr ?ens"
    by (simp add: read_bilibili read_douyin)
  have lo: "loaded four_files = []"
    by (simp add: loaded_def load_existing_data_def four_files_def)
  note ff = fail_fast [OF 1 sorted_four 3 4]
  have a: "snd (process_all_html_files sample_env four_files) = Inl (CouldNotExtract (fname weibo_file))"
    using ff [THEN conjunct1] by (simp only: snd_conv)
  have "output_file (fst (process_all_html_files sample_env four_files)) =
      Some (Stored (merge_all (loaded four_files) ?ens))"
    using ff [THEN conjunct2, THEN conjunct2] by simp
  then have b: "output_file (fst (process_all_html_files sample_env four_files)) =
     Some (Stored [(ascii ''2025-11-12'', [(ascii ''bilibili'', 532)]),
                   (ascii ''2025-11-13'', [(ascii ''douyin'', 5439)])])"
    by (simp only: lo merged_two)
  from 1 sorted_four weibo_unknown 4 a b show ?thesis by (simp only: simp_thms)
qed

lemma growth_lines_world:
  "\<exists>out. fst (growth_lines h fd ld names w) = says out w"
proof (induction names arbitrary: w)
  case Nil
  have "fst (growth_lines h fd ld [] w) = says [] w" by (simp add: says_def)
  then show ?case by blast
next
  case (Cons name names)
  show ?case
  proof (cases "growth_line h fd ld name")
    case (Inl err)
    then have "fst (growth_lines h fd ld (name # names) w) = says [] w" by (simp add: says_def)
    then show ?thesis by blast
  next
    case (Inr ms)
    from Cons.IH [of "says ms w"] obtain out where
      "fst (growth_lines h fd ld names (says ms w)) = says out (says ms w)" by blast
    with Inr have "fst (growth_lines h fd ld (name # names) w) = says (ms @ out) w"
      by (simp add: says_says)
    then show ?thesis by blast
  qed
qed

lemma load_world: "\<exists>out. fst (load_existing_data w) = says out w"
proof -
  have "says [] w = w" by (simp add: says_def)
  then have "fst (load_existing_data w) = says [] w \<or>
      fst (load_existing_data w) = says [ErrorLoading JSONDecodeError] w"
    using load_cases [of w] by auto
  then show ?thesis by blast
qed

lemma display_summary_world: "\<exists>out. fst (display_summary w) = says out w"
proof -
  obtain o1 where l: "fst (load_existing_data w) = says o1 w" using load_world by blast
  obtain w1 r where lw: "load_existing_data w = (w1, r)" by (cases "load_existing_data w")
  with l have w1: "w1 = says o1 w" by simp
  show ?thesis
  proof (cases r)
    case (Inl err)
    with lw w1 have "fst (display_summary w) = says o1 w" by (simp add: display_summary_def)
    then show ?thesis by blast
  next
    case h: (Inr h)
    show ?thesis
    proof (cases "h = []")
      case True
      with lw w1 h have "fst (display_summary w) = says (o1 @ [NoData]) w"
        by (simp add: display_summary_def says_says)
      then show ?thesis by blast
    next
      case False
      let ?ds = "sort (map fst h)"
      obtain ms r3 where d: "date_lines h ?ds = (ms, r3)" by (cases "date_lines h ?ds")
      let ?w3 = "says ms
         (says [Rule, SummaryTitle, Rule, TotalDates (length ?ds), DateRange (hd ?ds) (last ?ds),
            DataByDate] w1)"
      show ?thesis
      proof (cases r3)
        case (Inl err)
        with lw h False d have "fst (display_summary w) = ?w3"
          by (simp add: display_summary_def Let_def)
        then show ?thesis unfolding w1 says_says by blast
      next
        case k: (Inr u)
        show ?thesis
        proof (cases "1 < length ?ds")
          case True
          obtain o2 where g: "fst (growth_lines h (hd ?ds) (last ?ds) tracked (says [GrowthTitle] ?w3)) =
              says o2 (says [GrowthTitle] ?w3)"
            using growth_lines_world by blast
          obtain w4 r4 where g4: "growth_lines h (hd ?ds) (last ?ds) tracked (says [GrowthTitle] ?w3) = (w4, r4)"
            by (cases "growth_lines h (hd ?ds) (last ?ds) tracked (says [GrowthTitle] ?w3)")
          with g have w4: "w4 = says o2 (says [GrowthTitle] ?w3)" by simp
          show ?thesis
          proof (cases r4)
            case (Inl err)
            with lw h False True d k g4 w4 have "fst (display_summary w) =
               says o2 (says [GrowthTitle] ?w3)"
              by (simp add: display_summary_def Let_def tracked_def)
            then show ?thesis unfolding w1 says_says by blast
          next
            case (Inr u')
            with lw h False True d k g4 w4 have "fst (display_summary w) =
               says [Rule] (says o2 (says [GrowthTitle] ?w3))"
              by (simp add: display_summary_def Let_def tracked_def)
            then show ?thesis unfolding w1 says_says by blast
          qed
        next
          case f2: False
          with lw h False d k have "fst (display_summary w) = says [Rule] ?w3"
            by (simp add: display_summary_def Let_def)
          then show ?thesis unfolding w1 says_says by blast
        qed
      qed
    qed
  qed
qed

lemma process_all_cases:
  "snd (process_all_html_files e w) = Inr v \<Longrightarrow> v = None"
  by (auto simp: process_all_html_files_def split: option.splits if_splits prod.splits sum.splits)

text \<open>
  C7 (amended). \<open>process_all_html_files\<close> returns \<^verbatim>\<open>None\<close> whenever it returns. When the
  directory holds files and the run is not aborted, the number of files processed, which
  is then the number of files, is printed in the line "Processed k/n files successfully";
  every file has yielded an entry, and the output file holds the loaded history with all
  these entries merged.
\<close>

theorem returns_none_prints_count:
  "snd (process_all_html_files e w) = Inr v \<Longrightarrow>
   v = None \<and>
   (\<forall>files. html_cache_dir w = Some files \<and> files \<noteq> [] \<longrightarrow>
      Processed (length files) (length files) \<in> set (stdout (fst (process_all_html_files e w))) \<and>
      (\<exists>entries.
         map (read_entry e) (sort_key fname files) = map Inr entries \<and>
         output_file (fst (process_all_html_files e w)) =
           Some (Stored (merge_all (loaded w) entries))))"
proof (intro conjI allI impI)
  assume r: "snd (process_all_html_files e w) = Inr v"
  then show "v = None" by (rule process_all_cases)
  fix files
  assume f: "html_cache_dir w = Some files \<and> files \<noteq> []"
  let ?fs = "sort_key fname files"
  let ?w0 = "says [Rule, ProcessingCount (length files), Rule] w"
  obtain w1 res where p: "process_files e ?fs 0 ?w0 = (w1, res)"
    by (cases "process_files e ?fs 0 ?w0")
  have ne: "?fs \<noteq> []" using f by (metis length_0_conv length_sort)
  have "\<exists>k. res = Inr k"
  proof (cases res)
    case (Inl err)
    with r f p show ?thesis by (simp add: process_all_html_files_def)
  next
    case (Inr k)
    then show ?thesis by blast
  qed
  then obtain k where res: "res = Inr k" by blast
  with p have sp: "snd (process_files e ?fs 0 ?w0) = Inr k" by simp
  from process_files_entries [OF sp] obtain entries where
    en: "map (read_entry e) ?fs = map Inr entries" by blast
  from process_files_good [OF en, of 0 ?w0] p res ne
  have k: "k = length files"
    and o: "output_file w1 = Some (Stored (merge_all (loaded w) entries))"
    by simp_all
  let ?w2 = "says [Rule, Processed k (length files), DataSaved, Rule] w1"
  obtain out where d: "fst (display_summary ?w2) = says out ?w2"
    using display_summary_world by blast
  obtain w3 r3 where d3: "display_summary ?w2 = (w3, r3)" by (cases "display_summary ?w2")
  with d have w3: "w3 = says out ?w2" by simp
  from f p res d3 have pa: "fst (process_all_html_files e w) = w3"
    by (cases r3) (simp_all add: process_all_html_files_def)
  show "Processed (length files) (length files) \<in> set (stdout (fst (process_all_html_files e w)))"
    unfolding pa w3 using k by simp
  have "output_file (fst (process_all_html_files e w)) = Some (Stored (merge_all (loaded w) entries))"
    unfolding pa w3 using o by simp
  with en show "\<exists>entries.
         map (read_entry e) (sort_key fname files) = map Inr entries \<and>
         output_file (fst (process_all_html_files e w)) =
           Some (Stored (merge_all (loaded w) entries))"
    by blast
qed

lemma length_decimal_Suc: "n < 10 ^ Suc k \<Longrightarrow> length (decimal n) \<le> Suc k"
proof (induction k arbitrary: n)
  case 0
  then show ?case by (simp add: decimal_digit)
next
  case (Suc k)
  show ?case
  proof (cases "n < 10")
    case True
    then show ?thesis by (simp add: decimal_digit)
  next
    case False
    from Suc.prems have "n div 10 < 10 ^ Suc k" by simp
    then have "length (decimal (n div 10)) \<le> Suc k" by (rule Suc.IH)
    with False show ?thesis by (simp add: decimal_more)
  qed
qed

lemma length_decimal: "0 < k \<Longrightarrow> n < 10 ^ k \<Longrightarrow> length (decimal n) \<le> k"
  using length_decimal_Suc [of n "k - 1"] by simp

lemma format_int_returns:
  assumes "0 < k" and "k \<le> 4300" and "\<bar>n\<bar> < 10 ^ k"
  shows "format_int signed n =
           Inr ((if n < 0 then [45] else if signed then [43] else []) @ commas (decimal (nat \<bar>n\<bar>)))"
proof -
  from assms(3) have "nat \<bar>n\<bar> < 10 ^ k" by (simp add: nat_less_iff)
  with assms(1) have "length (decimal (nat \<bar>n\<bar>)) \<le> k" by (simp add: length_decimal)
  with assms(2) show ?thesis by (simp add: format_int_def Let_def)
qed

lemma format_int_digit: "\<bar>n\<bar> < 1000 \<Longrightarrow> \<exists>t. format_int signed n = Inr t"
  using format_int_returns [of 3 n signed] by simp

lemma display_summary_single:
  "output_file w = Some (Stored [(d, [(name, count)])]) \<Longrightarrow> \<bar>count\<bar> < 1000 \<Longrightarrow>
   snd (display_summary w) = Inr ()"
  using format_int_digit [of count False]
  by (auto simp: display_summary_def load_existing_data_def json_load_def Let_def)

lemma one_file_run:
  "snd (process_all_html_files sample_env one_file) = Inr None \<and>
   output_file (fst (process_all_html_files sample_env one_file)) =
     Some (Stored [(ascii ''2025-11-12'', [(ascii ''bilibili'', 532)])])"
proof -
  let ?en = "\<lparr>platform = ascii ''bilibili'', followers = 532,
        timestamp = ascii ''2025-11-12T10:00:00'', source_file = fname bilibili_file\<rparr>"
  let ?h = "[(ascii ''2025-11-12'', [(ascii ''bilibili'', 532::int)])]"
  let ?w0 = "says [Rule, ProcessingCount (length [bilibili_file]), Rule] one_file"
  have hc: "html_cache_dir one_file = Some [bilibili_file]" by (simp add: one_file_def)
  have lo: "loaded one_file = []"
    by (simp add: loaded_def load_existing_data_def one_file_def)
  have en: "map (read_entry sample_env) [bilibili_file] = map Inr [?en]"
    by (simp add: read_bilibili)
  obtain w1 r1 where p: "process_files sample_env [bilibili_file] 0 ?w0 = (w1, r1)"
    by (cases "process_files sample_env [bilibili_file] 0 ?w0")
  from process_files_good [OF en, of 0 ?w0] p
  have r1: "r1 = Inr 1" and o1: "output_file w1 = Some (Stored ?h)"
    by (simp_all add: lo merged_one del: process_files.simps)
  let ?w2 = "says [Rule, Processed 1 (length [bilibili_file]), DataSaved, Rule] w1"
  have o2: "output_file ?w2 = Some (Stored ?h)" using o1 by simp
  obtain w3 r3 where d: "display_summary ?w2 = (w3, r3)" by (cases "display_summary ?w2")
  have r3: "r3 = Inr ()" using display_summary_single [OF o2] d by simp
  obtain out where "fst (display_summary ?w2) = says out ?w2"
    using display_summary_world by blast
  with d have w3: "w3 = says out ?w2" by simp
  have "process_all_html_files sample_env one_file = (w3, Inr None)"
    unfolding process_all_html_files_def hc
    using p r1 d r3 by (simp del: process_files.simps)
  with w3 o1 show ?thesis by simp
qed

theorem returns_none_prints_count_witness:
  "snd (process_all_html_files sample_env one_file) = Inr None \<and>
   html_cache_dir one_file = Some [bilibili_file] \<and>
   Processed 1 1 \<in> set (stdout (fst (process_all_html_files sample_env one_file))) \<and>
   output_file (fst (process_all_html_files sample_env one_file)) =
     Some (Stored [(ascii ''2025-11-12'', [(ascii ''bilibili'', 532)])])"
proof -
  have r: "snd (process_all_html_files sample_env one_file) = Inr None"
    using one_file_run by simp
  have hc: "html_cache_dir one_file = Some [bilibili_file]" by (simp add: one_file_def)
  from returns_none_prints_count [OF r] hc
  have "Processed 1 1 \<in> set (stdout (fst (process_all_html_files sample_env one_file)))"
    by simp
  with r hc one_file_run show ?thesis by simp
qed

text \<open>
  The claim C7 as it was stated fails: with one file in the directory, processed and
  saved, the value returned is \<^verbatim>\<open>None\<close> and not the count 1.
\<close>

theorem returns_none_not_count:
  "snd (process_all_html_files sample_env one_file) = Inr None \<and>
   snd (process_all_html_files sample_env one_file) \<noteq> Inr (Some 1) \<and>
   output_file (fst (process_all_html_files sample_env one_file)) =
     Some (Stored [(ascii ''2025-11-12'', [(ascii ''bilibili'', 532)])])"
  using one_file_run by simp

end
